theory Spec2Isabelle
  imports Main "HOL-Library.Word" "HOL-Library.Signed_Division"
begin

section \<open>The Sampler class of L3\_Utils/sampler.hpp\<close>

text \<open>
  The class template \<open>Sampler<TYPE>\<close> keeps the last samples of a variable in a
  circular buffer and answers average, latest, highest and lowest. The embedding below
  follows the header member by member.

  \<^item> \<open>TYPE\<close> is instantiated as in the usage example of the class comment,
    \<open>Sampler<int>\<close>: a 32-bit two's complement integer, here a \<open>32 word\<close>.
    Addition is the word's addition: where C++ leaves the overflow of a signed sum
    undefined, the model takes the wrap-around of two's complement arithmetic. Comparison
    is the signed one (through \<open>sint\<close>), division is C++ integer division, which
    truncates towards zero (\<open>sdiv\<close> on the signed values).
  \<^item> The \<open>int\<close> members and parameters (sizes and indices) are HOL integers. In the
    states of a constructed object every index computation stays between \<open>-1\<close> and
    the array size, so no wrap-around arises there.
  \<^item> The class signals no error of its own. What the model returns as \<open>Inl\<close> is
    a \<^emph>\<open>fault\<close>: a point where the C++ program leaves defined behaviour (a subscript
    outside the allocated array, an integer division by zero, an array allocation of
    negative length). A fault is not a value the caller receives.
\<close>

type_synonym TYPE_int = "32 word"

datatype fault = OutOfBounds | DivideByZero | BadArrayNewLength

record Sampler =
  mSampleArraySize :: int
  mSampleIndex :: int
  mAllSamplesReady :: bool
  mSamples :: "TYPE_int list"

subsection \<open>Array subscript and integer division\<close>

text \<open>\<open>a[i]\<close> on an array of \<open>length a\<close> elements, read access.\<close>

definition subscript :: "TYPE_int list \<Rightarrow> int \<Rightarrow> fault + TYPE_int" where
  "subscript a i = (if 0 \<le> i \<and> i < int (length a) then Inr (a ! nat i) else Inl OutOfBounds)"

text \<open>\<open>sum / numSamples\<close> with \<open>sum\<close> of type \<open>int\<close> and \<open>numSamples\<close> an \<open>int\<close>.\<close>

definition divide_int :: "TYPE_int \<Rightarrow> int \<Rightarrow> fault + TYPE_int" where
  "divide_int sumv numSamples =
     (if numSamples = 0 then Inl DivideByZero
      else Inr (word_of_int (sint sumv sdiv numSamples)))"

subsection \<open>Constructor, storeSample and clear\<close>

text \<open>
  \<open>new TYPE[numSamples]\<close> followed by the loop that sets every element to 0. A length
  of zero is a valid allocation of an array without elements; a negative length is not
  an allocation at all.
\<close>

definition Sampler :: "int \<Rightarrow> fault + Sampler" where
  "Sampler numSamples =
     (if numSamples < 0 then Inl BadArrayNewLength
      else Inr \<lparr>mSampleArraySize = numSamples, mSampleIndex = 0,
                 mAllSamplesReady = False, mSamples = replicate (nat numSamples) 0\<rparr>)"

definition storeSample :: "Sampler \<Rightarrow> TYPE_int \<Rightarrow> fault + Sampler" where
  "storeSample s sample =
     (if 0 \<le> mSampleIndex s \<and> mSampleIndex s < int (length (mSamples s)) then
        (let s1 = s\<lparr>mSamples := (mSamples s)[nat (mSampleIndex s) := sample]\<rparr>;
             s2 = s1\<lparr>mSampleIndex := mSampleIndex s1 + 1\<rparr>
         in if mSampleIndex s2 \<ge> mSampleArraySize s2
            then Inr (s2\<lparr>mSampleIndex := 0, mAllSamplesReady := True\<rparr>)
            else Inr s2)
      else Inl OutOfBounds)"

definition clear :: "Sampler \<Rightarrow> Sampler" where
  "clear s = s\<lparr>mAllSamplesReady := False, mSampleIndex := 0\<rparr>"

subsection \<open>The inline accessors\<close>

definition allSamplesReady :: "Sampler \<Rightarrow> bool" where
  "allSamplesReady s = mAllSamplesReady s"

definition getMaxSampleCount :: "Sampler \<Rightarrow> int" where
  "getMaxSampleCount s = mSampleArraySize s"

definition getSampleCount :: "Sampler \<Rightarrow> int" where
  "getSampleCount s = (if mAllSamplesReady s then mSampleArraySize s else mSampleIndex s)"

text \<open>
  \<open>mSamples[idx % mSampleArraySize]\<close>: the remainder of C++ has the sign of the
  dividend (\<open>smod\<close>), and a zero divisor is a fault.
\<close>

definition getSampleNum :: "Sampler \<Rightarrow> int \<Rightarrow> fault + TYPE_int" where
  "getSampleNum s idx =
     (if mSampleArraySize s = 0 then Inl DivideByZero
      else subscript (mSamples s) (idx smod mSampleArraySize s))"

subsection \<open>The statistics\<close>

text \<open>The loop of \<open>getAverage\<close>: \<open>for (i; i < numSamples; i++) sum += mSamples[i]\<close>.\<close>

function sum_loop :: "TYPE_int list \<Rightarrow> int \<Rightarrow> int \<Rightarrow> TYPE_int \<Rightarrow> fault + TYPE_int" where
  "sum_loop a i numSamples sumv =
     (if i < numSamples then
        (case subscript a i of
           Inl e \<Rightarrow> Inl e
         | Inr v \<Rightarrow> sum_loop a (i + 1) numSamples (sumv + v))
      else Inr sumv)"
  by pat_completeness auto
termination
  by (relation "measure (\<lambda>(a, i, numSamples, sumv). nat (numSamples - i))") auto

declare sum_loop.simps [simp del]

definition getAverage :: "Sampler \<Rightarrow> fault + TYPE_int" where
  "getAverage s =
     (let numSamples = getSampleCount s in
      case sum_loop (mSamples s) 0 numSamples 0 of
        Inl e \<Rightarrow> Inl e
      | Inr sumv \<Rightarrow> divide_int sumv numSamples)"

definition getLatest :: "Sampler \<Rightarrow> fault + TYPE_int" where
  "getLatest s =
     (let idx = (if 0 = mSampleIndex s then mSampleArraySize s - 1 else mSampleIndex s - 1)
      in subscript (mSamples s) idx)"

text \<open>The loop of \<open>getHighest\<close>: \<open>if (highest < mSamples[i]) highest = mSamples[i]\<close>.\<close>

function highest_loop :: "TYPE_int list \<Rightarrow> int \<Rightarrow> int \<Rightarrow> TYPE_int \<Rightarrow> fault + TYPE_int" where
  "highest_loop a i numSamples highest =
     (if i < numSamples then
        (case subscript a i of
           Inl e \<Rightarrow> Inl e
         | Inr v \<Rightarrow> highest_loop a (i + 1) numSamples (if sint highest < sint v then v else highest))
      else Inr highest)"
  by pat_completeness auto
termination
  by (relation "measure (\<lambda>(a, i, numSamples, highest). nat (numSamples - i))") auto

declare highest_loop.simps [simp del]

definition getHighest :: "Sampler \<Rightarrow> fault + TYPE_int" where
  "getHighest s =
     (let numSamples = getSampleCount s in
      case subscript (mSamples s) 0 of
        Inl e \<Rightarrow> Inl e
      | Inr highest \<Rightarrow> highest_loop (mSamples s) 0 numSamples highest)"

text \<open>The loop of \<open>getLowest\<close>: \<open>if (lowest > mSamples[i]) lowest = mSamples[i]\<close>.\<close>

function lowest_loop :: "TYPE_int list \<Rightarrow> int \<Rightarrow> int \<Rightarrow> TYPE_int \<Rightarrow> fault + TYPE_int" where
  "lowest_loop a i numSamples lowest =
     (if i < numSamples then
        (case subscript a i of
           Inl e \<Rightarrow> Inl e
         | Inr v \<Rightarrow> lowest_loop a (i + 1) numSamples (if sint lowest > sint v then v else lowest))
      else Inr lowest)"
  by pat_completeness auto
termination
  by (relation "measure (\<lambda>(a, i, numSamples, lowest). nat (numSamples - i))") auto

declare lowest_loop.simps [simp del]

definition getLowest :: "Sampler \<Rightarrow> fault + TYPE_int" where
  "getLowest s =
     (let numSamples = getSampleCount s in
      case subscript (mSamples s) 0 of
        Inl e \<Rightarrow> Inl e
      | Inr lowest \<Rightarrow> lowest_loop (mSamples s) 0 numSamples lowest)"

subsection \<open>A client: one object and the calls that change it\<close>

text \<open>
  The only members that change an object are \<open>storeSample\<close> and \<open>clear\<close>. A buffer
  state is what a sequence of such calls leaves of an object built by the constructor;
  the first fault ends the run.
\<close>

datatype call = StoreSample TYPE_int | ClearSamples

fun step :: "Sampler \<Rightarrow> call \<Rightarrow> fault + Sampler" where
  "step s (StoreSample sample) = storeSample s sample"
| "step s ClearSamples = Inr (clear s)"

fun exec :: "Sampler \<Rightarrow> call list \<Rightarrow> fault + Sampler" where
  "exec s [] = Inr s"
| "exec s (c # cs) = (case step s c of Inl e \<Rightarrow> Inl e | Inr s' \<Rightarrow> exec s' cs)"

definition run :: "int \<Rightarrow> call list \<Rightarrow> fault + Sampler" where
  "run numSamples cs = (case Sampler numSamples of Inl e \<Rightarrow> Inl e | Inr s \<Rightarrow> exec s cs)"

text \<open>The samples stored since the constructor or the last \<open>clear\<close>, oldest first.\<close>

fun since_clear :: "TYPE_int list \<Rightarrow> call list \<Rightarrow> TYPE_int list" where
  "since_clear acc [] = acc"
| "since_clear acc (StoreSample sample # cs) = since_clear (acc @ [sample]) cs"
| "since_clear acc (ClearSamples # cs) = since_clear [] cs"

definition stored :: "call list \<Rightarrow> TYPE_int list" where
  "stored cs = since_clear [] cs"

subsection \<open>The class invariant\<close>

text \<open>
  What every member relies on: the array has \<open>mSampleArraySize\<close> elements, there is at
  least one, and \<open>mSampleIndex\<close> is a valid subscript.
\<close>

definition invar :: "Sampler \<Rightarrow> bool" where
  "invar s \<longleftrightarrow>
     1 \<le> mSampleArraySize s \<and> int (length (mSamples s)) = mSampleArraySize s \<and>
     0 \<le> mSampleIndex s \<and> mSampleIndex s < mSampleArraySize s"

text \<open>The object that \<open>Sampler(0)\<close> builds: an array without elements.\<close>

definition no_slots :: Sampler where
  "no_slots = \<lparr>mSampleArraySize = 0, mSampleIndex = 0, mAllSamplesReady = False, mSamples = []\<rparr>"

section \<open>The invariant and the runs\<close>

lemma Sampler_Inr:
  "0 \<le> c \<Longrightarrow> Sampler c = Inr \<lparr>mSampleArraySize = c, mSampleIndex = 0,
      mAllSamplesReady = False, mSamples = replicate (nat c) 0\<rparr>"
  by (simp add: Sampler_def)

lemma Sampler_invar:
  "1 \<le> c \<Longrightarrow> Sampler c = Inr s \<Longrightarrow>
     invar s \<and> mSampleArraySize s = c \<and> mSampleIndex s = 0 \<and> \<not> mAllSamplesReady s"
  by (auto simp: Sampler_def invar_def)

lemma storeSample_Inr:
  assumes "invar s"
  shows "storeSample s x = Inr (s\<lparr>mSamples := (mSamples s)[nat (mSampleIndex s) := x],
           mSampleIndex := (if mSampleIndex s + 1 \<ge> mSampleArraySize s then 0 else mSampleIndex s + 1),
           mAllSamplesReady := (mAllSamplesReady s \<or> mSampleIndex s + 1 \<ge> mSampleArraySize s)\<rparr>)"
  using assms by (simp add: storeSample_def invar_def Let_def)

lemma storeSample_invar:
  assumes "invar s" and "storeSample s x = Inr s'"
  shows "invar s'" and "mSampleArraySize s' = mSampleArraySize s"
  using assms by (auto simp: storeSample_Inr invar_def)

lemma storeSample_getLatest:
  assumes "invar s" and "storeSample s x = Inr s'"
  shows "getLatest s' = Inr x"
proof (cases "mSampleIndex s + 1 \<ge> mSampleArraySize s")
  case True
  with assms(1) have "mSampleIndex s = mSampleArraySize s - 1"
    by (simp add: invar_def)
  with assms True show ?thesis
    by (auto simp: storeSample_Inr invar_def getLatest_def subscript_def)
next
  case False
  with assms show ?thesis
    by (auto simp: storeSample_Inr invar_def getLatest_def subscript_def)
qed

lemma clear_invar: "invar s \<Longrightarrow> invar (clear s)"
  by (simp add: invar_def clear_def)

lemma exec_snoc:
  "exec s (cs @ [c]) = (case exec s cs of Inl e \<Rightarrow> Inl e | Inr s' \<Rightarrow> step s' c)"
  by (induction cs arbitrary: s) (auto split: sum.splits)

lemma since_clear_snoc:
  "since_clear acc (cs @ [c]) =
     (case c of StoreSample x \<Rightarrow> since_clear acc cs @ [x] | ClearSamples \<Rightarrow> [])"
  by (induction acc cs rule: since_clear.induct) (auto split: call.splits)

lemma stored_snoc [simp]:
  "stored (cs @ [StoreSample x]) = stored cs @ [x]"
  "stored (cs @ [ClearSamples]) = []"
  "stored [] = []"
  by (simp_all add: stored_def since_clear_snoc)

lemma exec_track:
  assumes "invar s0" and "mSampleIndex s0 = 0" and "\<not> mAllSamplesReady s0"
  shows "\<exists>s. exec s0 cs = Inr s \<and> invar s \<and> mSampleArraySize s = mSampleArraySize s0 \<and>
           (mAllSamplesReady s \<longleftrightarrow> mSampleArraySize s0 \<le> int (length (stored cs))) \<and>
           (\<not> mAllSamplesReady s \<longrightarrow> mSampleIndex s = int (length (stored cs))) \<and>
           (stored cs \<noteq> [] \<longrightarrow> getLatest s = Inr (last (stored cs)))"
proof (induction cs rule: rev_induct)
  case Nil
  with assms show ?case using assms by (simp add: invar_def)
next
  case (snoc c cs)
  then obtain s where s: "exec s0 cs = Inr s" "invar s"
      "mSampleArraySize s = mSampleArraySize s0"
      "mAllSamplesReady s \<longleftrightarrow> mSampleArraySize s0 \<le> int (length (stored cs))"
      "\<not> mAllSamplesReady s \<longrightarrow> mSampleIndex s = int (length (stored cs))"
    by blast
  show ?case
  proof (cases c)
    case (StoreSample x)
    let ?s' = "s\<lparr>mSamples := (mSamples s)[nat (mSampleIndex s) := x],
           mSampleIndex := (if mSampleIndex s + 1 \<ge> mSampleArraySize s then 0 else mSampleIndex s + 1),
           mAllSamplesReady := (mAllSamplesReady s \<or> mSampleIndex s + 1 \<ge> mSampleArraySize s)\<rparr>"
    have st: "storeSample s x = Inr ?s'" by (rule storeSample_Inr [OF s(2)])
    have e: "exec s0 (cs @ [c]) = Inr ?s'"
      by (simp add: exec_snoc s(1) StoreSample st)
    have i: "invar ?s'" using storeSample_invar(1) [OF s(2) st] .
    have l: "getLatest ?s' = Inr x" using storeSample_getLatest [OF s(2) st] .
    have r: "mAllSamplesReady ?s' \<longleftrightarrow> mSampleArraySize s0 \<le> int (length (stored (cs @ [c])))"
      using s(2-5) by (auto simp: StoreSample invar_def)
    have x: "\<not> mAllSamplesReady ?s' \<longrightarrow> mSampleIndex ?s' = int (length (stored (cs @ [c])))"
      using s(2-5) by (auto simp: StoreSample invar_def)
    show ?thesis
      apply (rule exI [of _ ?s'])
      using e i l r x s(3) by (simp add: StoreSample)
  next
    case ClearSamples
    have e: "exec s0 (cs @ [c]) = Inr (clear s)"
      by (simp add: exec_snoc s(1) ClearSamples)
    show ?thesis
      apply (rule exI [of _ "clear s"])
      using e clear_invar [OF s(2)] s(2,3) by (simp add: ClearSamples clear_def invar_def)
  qed
qed

lemma run_track:
  assumes "1 \<le> c"
  shows "\<exists>s. run c cs = Inr s \<and> invar s \<and> mSampleArraySize s = c \<and>
           (mAllSamplesReady s \<longleftrightarrow> c \<le> int (length (stored cs))) \<and>
           (\<not> mAllSamplesReady s \<longrightarrow> mSampleIndex s = int (length (stored cs))) \<and>
           (stored cs \<noteq> [] \<longrightarrow> getLatest s = Inr (last (stored cs)))"
proof -
  obtain s0 where s0: "Sampler c = Inr s0" using assms by (simp add: Sampler_def)
  from Sampler_invar [OF assms s0] exec_track [of s0 cs]
  show ?thesis by (simp add: run_def s0)
qed

lemma step_no_slots: "step no_slots c = Inr s \<Longrightarrow> s = no_slots"
  by (cases c) (auto simp: storeSample_def clear_def no_slots_def)

lemma exec_no_slots: "exec no_slots cs = Inr s \<Longrightarrow> s = no_slots"
proof (induction cs arbitrary: s rule: rev_induct)
  case Nil then show ?case by simp
next
  case (snoc c cs)
  from snoc.prems obtain s1 where s1: "exec no_slots cs = Inr s1" and st: "step s1 c = Inr s"
    by (auto simp: exec_snoc split: sum.splits)
  from snoc.IH [OF s1] st show ?case by (simp add: step_no_slots)
qed

lemma run_cases:
  assumes "run c cs = Inr s"
  shows "(1 \<le> c \<and> invar s \<and> mSampleArraySize s = c) \<or> (c = 0 \<and> s = no_slots)"
proof -
  consider "c < 0" | "c = 0" | "1 \<le> c" by linarith
  then show ?thesis
  proof cases
    case 1 with assms show ?thesis by (simp add: run_def Sampler_def)
  next
    case 2
    with assms have "exec no_slots cs = Inr s" by (simp add: run_def Sampler_def no_slots_def)
    then show ?thesis using 2 exec_no_slots by blast
  next
    case 3
    from run_track [OF 3, of cs] assms show ?thesis using 3 by auto
  qed
qed

section \<open>The loops\<close>

lemma subscript_Inr: "0 \<le> i \<Longrightarrow> i < int (length a) \<Longrightarrow> subscript a i = Inr (a ! nat i)"
  by (simp add: subscript_def)

lemma sum_loop_eq:
  "0 \<le> i \<Longrightarrow> n \<le> int (length a) \<Longrightarrow>
     sum_loop a i n acc = Inr (acc + (\<Sum>k = nat i..<nat n. a ! k))"
proof (induction a i n acc rule: sum_loop.induct)
  case (1 a i n acc)
  show ?case
  proof (cases "i < n")
    case True
    with "1.prems" have sub: "subscript a i = Inr (a ! nat i)"
      by (simp add: subscript_Inr)
    have ih: "sum_loop a (i + 1) n (acc + a ! nat i) =
                Inr (acc + a ! nat i + (\<Sum>k = nat (i + 1)..<nat n. a ! k))"
      using "1.IH" [OF True sub] "1.prems" by simp
    have lt: "nat i < nat n" using True "1.prems" by simp
    have suc: "nat (i + 1) = Suc (nat i)" using "1.prems" by simp
    have "(\<Sum>k = nat i..<nat n. a ! k) = a ! nat i + (\<Sum>k = Suc (nat i)..<nat n. a ! k)"
      using lt by (simp add: sum.atLeast_Suc_lessThan)
    then show ?thesis
      by (subst sum_loop.simps) (simp add: True sub ih suc add.assoc)
  next
    case False
    then have "nat n \<le> nat i" by simp
    with False show ?thesis by (subst sum_loop.simps) simp
  qed
qed

lemma sum_take_nth:
  "n \<le> length a \<Longrightarrow> (\<Sum>k = 0..<n. a ! k) = sum_list (take n (a :: TYPE_int list))"
  by (simp add: sum_list_sum_nth)

lemma getAverage_invar:
  assumes "invar s" and "0 < getSampleCount s"
  shows "getAverage s =
     Inr (word_of_int (sint (sum_list (take (nat (getSampleCount s)) (mSamples s)))
                         sdiv getSampleCount s))"
proof -
  have le: "getSampleCount s \<le> int (length (mSamples s))"
    using assms(1) by (simp add: invar_def getSampleCount_def)
  then have le': "nat (getSampleCount s) \<le> length (mSamples s)" by simp
  have "sum_loop (mSamples s) 0 (getSampleCount s) 0 =
          Inr (0 + (\<Sum>k = nat 0..<nat (getSampleCount s). mSamples s ! k))"
    by (rule sum_loop_eq [OF _ le]) simp
  then have "sum_loop (mSamples s) 0 (getSampleCount s) 0 =
          Inr (sum_list (take (nat (getSampleCount s)) (mSamples s)))"
    using sum_take_nth [OF le'] by simp
  then show ?thesis using assms(2)
    by (simp add: getAverage_def divide_int_def Let_def)
qed

lemma highest_loop_inv:
  "0 \<le> i \<Longrightarrow> i \<le> n \<Longrightarrow> n \<le> int (length a) \<Longrightarrow>
   (i = 0 \<and> h = a ! 0) \<or>
     (\<exists>k<nat i. h = a ! k \<and> (\<forall>j<nat i. sint (a ! j) \<le> sint h) \<and> (\<forall>j<k. sint (a ! j) < sint h)) \<Longrightarrow>
   \<exists>r. highest_loop a i n h = Inr r \<and>
     ((n = 0 \<and> r = a ! 0) \<or>
      (\<exists>k<nat n. r = a ! k \<and> (\<forall>j<nat n. sint (a ! j) \<le> sint r) \<and> (\<forall>j<k. sint (a ! j) < sint r)))"
proof (induction a i n h rule: highest_loop.induct)
  case (1 a i n h)
  show ?case
  proof (cases "i < n")
    case True
    with "1.prems" have sub: "subscript a i = Inr (a ! nat i)"
      by (simp add: subscript_Inr)
    let ?v = "a ! nat i"
    let ?h = "if sint h < sint ?v then ?v else h"
    have suc: "nat (i + 1) = Suc (nat i)" using "1.prems" by simp
    have inv': "(i + 1 = 0 \<and> ?h = a ! 0) \<or>
       (\<exists>k<nat (i + 1). ?h = a ! k \<and> (\<forall>j<nat (i + 1). sint (a ! j) \<le> sint ?h) \<and>
          (\<forall>j<k. sint (a ! j) < sint ?h))"
    proof (cases "i = 0")
      case True
      with "1.prems" have "h = a ! 0" by auto
      with True show ?thesis by simp
    next
      case False
      with "1.prems" obtain k where k: "k < nat i" "h = a ! k"
          "\<forall>j<nat i. sint (a ! j) \<le> sint h" "\<forall>j<k. sint (a ! j) < sint h"
        by auto
      show ?thesis
      proof (cases "sint h < sint ?v")
        case True
        have "\<forall>j<Suc (nat i). sint (a ! j) \<le> sint ?v"
          using k(3) True by (auto simp: less_Suc_eq)
        moreover have "\<forall>j<nat i. sint (a ! j) < sint ?v"
          using k(3) True by fastforce
        ultimately show ?thesis using True suc
          by (intro disjI2 exI [of _ "nat i"]) simp
      next
        case False
        have "\<forall>j<Suc (nat i). sint (a ! j) \<le> sint h"
          using k(3) False by (auto simp: less_Suc_eq)
        then show ?thesis using False suc k(1,2,4)
          by (intro disjI2 exI [of _ k]) simp
      qed
    qed
    have "\<exists>r. highest_loop a (i + 1) n ?h = Inr r \<and>
     ((n = 0 \<and> r = a ! 0) \<or>
      (\<exists>k<nat n. r = a ! k \<and> (\<forall>j<nat n. sint (a ! j) \<le> sint r) \<and> (\<forall>j<k. sint (a ! j) < sint r)))"
      using "1.IH" [OF True sub _ _ _ inv'] "1.prems" True by simp
    then show ?thesis
      by (subst highest_loop.simps) (simp add: True sub)
  next
    case False
    with "1.prems" have "i = n" by simp
    with "1.prems" show ?thesis
      by (subst highest_loop.simps) auto
  qed
qed

lemma lowest_loop_inv:
  "0 \<le> i \<Longrightarrow> i \<le> n \<Longrightarrow> n \<le> int (length a) \<Longrightarrow>
   (i = 0 \<and> h = a ! 0) \<or>
     (\<exists>k<nat i. h = a ! k \<and> (\<forall>j<nat i. sint h \<le> sint (a ! j)) \<and> (\<forall>j<k. sint h < sint (a ! j))) \<Longrightarrow>
   \<exists>r. lowest_loop a i n h = Inr r \<and>
     ((n = 0 \<and> r = a ! 0) \<or>
      (\<exists>k<nat n. r = a ! k \<and> (\<forall>j<nat n. sint r \<le> sint (a ! j)) \<and> (\<forall>j<k. sint r < sint (a ! j))))"
proof (induction a i n h rule: lowest_loop.induct)
  case (1 a i n h)
  show ?case
  proof (cases "i < n")
    case True
    with "1.prems" have sub: "subscript a i = Inr (a ! nat i)"
      by (simp add: subscript_Inr)
    let ?v = "a ! nat i"
    let ?h = "if sint h > sint ?v then ?v else h"
    have suc: "nat (i + 1) = Suc (nat i)" using "1.prems" by simp
    have inv': "(i + 1 = 0 \<and> ?h = a ! 0) \<or>
       (\<exists>k<nat (i + 1). ?h = a ! k \<and> (\<forall>j<nat (i + 1). sint ?h \<le> sint (a ! j)) \<and>
          (\<forall>j<k. sint ?h < sint (a ! j)))"
    proof (cases "i = 0")
      case True
      with "1.prems" have "h = a ! 0" by auto
      with True show ?thesis by simp
    next
      case False
      with "1.prems" obtain k where k: "k < nat i" "h = a ! k"
          "\<forall>j<nat i. sint h \<le> sint (a ! j)" "\<forall>j<k. sint h < sint (a ! j)"
        by auto
      show ?thesis
      proof (cases "sint h > sint ?v")
        case True
        have "\<forall>j<Suc (nat i). sint ?v \<le> sint (a ! j)"
          using k(3) True by (auto simp: less_Suc_eq)
        moreover have "\<forall>j<nat i. sint ?v < sint (a ! j)"
          using k(3) True by fastforce
        ultimately show ?thesis using True suc
          by (intro disjI2 exI [of _ "nat i"]) simp
      next
        case False
        have "\<forall>j<Suc (nat i). sint h \<le> sint (a ! j)"
          using k(3) False by (auto simp: less_Suc_eq)
        then show ?thesis using False suc k(1,2,4)
          by (intro disjI2 exI [of _ k]) simp
      qed
    qed
    have "\<exists>r. lowest_loop a (i + 1) n ?h = Inr r \<and>
     ((n = 0 \<and> r = a ! 0) \<or>
      (\<exists>k<nat n. r = a ! k \<and> (\<forall>j<nat n. sint r \<le> sint (a ! j)) \<and> (\<forall>j<k. sint r < sint (a ! j))))"
      using "1.IH" [OF True sub _ _ _ inv'] "1.prems" True by simp
    then show ?thesis
      by (subst lowest_loop.simps) (simp add: True sub)
  next
    case False
    with "1.prems" have "i = n" by simp
    with "1.prems" show ?thesis
      by (subst lowest_loop.simps) auto
  qed
qed

lemma run_invar:
  assumes "run c cs = Inr s" and "0 < getSampleCount s"
  shows "invar s"
  using run_cases [OF assms(1)] assms(2) by (auto simp: no_slots_def getSampleCount_def)


lemma smod_nonneg: "0 \<le> (i::int) \<Longrightarrow> 0 < c \<Longrightarrow> i smod c = i mod c"
  by (cases "i = 0") (simp_all add: smod_int_alt_def)

section \<open>The claims\<close>

text \<open>
  C1. In every buffer state with \<open>getSampleCount() > 0\<close>, \<open>getAverage()\<close> returns the sum
  of the physical slots \<open>mSamples[0 .. getSampleCount()-1]\<close>, taken in the sample type,
  divided by \<open>getSampleCount()\<close> with the truncating division of \<open>int\<close>. The slots are
  the first ones of the array, whatever the order in which they were written.
\<close>

theorem getAverage_physical_slots:
  assumes "run c cs = Inr s" and "0 < getSampleCount s"
  shows "getAverage s =
     Inr (word_of_int (sint (sum_list (take (nat (getSampleCount s)) (mSamples s)))
                         sdiv getSampleCount s))"
  using getAverage_invar [OF run_invar [OF assms] assms(2)] .


text \<open>
  With two slots, after 10, 20 and 30 the array holds 30 and 20, and the average is 25.
\<close>

theorem getAverage_physical_slots_witness:
  "run 2 [StoreSample 10, StoreSample 20, StoreSample 30] =
     Inr \<lparr>mSampleArraySize = 2, mSampleIndex = 1, mAllSamplesReady = True, mSamples = [30, 20]\<rparr> \<and>
   0 < getSampleCount \<lparr>mSampleArraySize = 2, mSampleIndex = 1, mAllSamplesReady = True, mSamples = [30, 20]\<rparr> \<and>
   getAverage \<lparr>mSampleArraySize = 2, mSampleIndex = 1, mAllSamplesReady = True, mSamples = [30, 20]\<rparr> = Inr 25"
proof -
  let ?s = "\<lparr>mSampleArraySize = 2, mSampleIndex = 1, mAllSamplesReady = True, mSamples = [30, 20 :: TYPE_int]\<rparr>"
  have r: "run 2 [StoreSample 10, StoreSample 20, StoreSample 30] = Inr ?s" by code_simp
  have p: "0 < getSampleCount ?s" by (simp add: getSampleCount_def)
  have "getAverage ?s = Inr 25"
    using getAverage_physical_slots [OF r p] by (simp add: getSampleCount_def)
  with r p show ?thesis by simp
qed

text \<open>The division truncates towards zero: the average of -7 and 0 is -3.\<close>

lemma getAverage_truncates:
  "run 2 [StoreSample (- 7), StoreSample 0] =
     Inr \<lparr>mSampleArraySize = 2, mSampleIndex = 0, mAllSamplesReady = True, mSamples = [- 7, 0]\<rparr> \<and>
   getAverage \<lparr>mSampleArraySize = 2, mSampleIndex = 0, mAllSamplesReady = True, mSamples = [- 7, 0]\<rparr>
     = Inr (- 3)"
  by code_simp

text \<open>
  The specification wants \<open>getAverage()\<close>, \<open>getHighest()\<close> and \<open>getLowest()\<close> to report
  an empty buffer. The class has no such report. After 4 and 6 and then \<open>clear()\<close>, with
  \<open>getSampleCount() = 0\<close>, highest and lowest are the stale 4 of slot 0.
\<close>

theorem statistics_of_empty_buffer_counterexample:
  "run 2 [StoreSample 4, StoreSample 6, ClearSamples] =
     Inr \<lparr>mSampleArraySize = 2, mSampleIndex = 0, mAllSamplesReady = False, mSamples = [4, 6]\<rparr> \<and>
   getSampleCount \<lparr>mSampleArraySize = 2, mSampleIndex = 0, mAllSamplesReady = False, mSamples = [4, 6]\<rparr> = 0 \<and>
   getHighest \<lparr>mSampleArraySize = 2, mSampleIndex = 0, mAllSamplesReady = False, mSamples = [4, 6]\<rparr> = Inr 4 \<and>
   getLowest \<lparr>mSampleArraySize = 2, mSampleIndex = 0, mAllSamplesReady = False, mSamples = [4, 6]\<rparr> = Inr 4"
  by code_simp

text \<open>
  C2, as the code has it. In every buffer state with \<open>getSampleCount() = 0\<close> of an object
  with at least one slot, \<open>getHighest()\<close> and \<open>getLowest()\<close> return the content of physical
  slot 0 (the zero of a new object, a stale sample after \<open>clear()\<close>), and \<open>getAverage()\<close>
  divides the empty sum by the count zero, which is a fault; none of them reports an
  empty buffer.
\<close>

theorem statistics_of_empty_buffer:
  assumes "run c cs = Inr s" and "1 \<le> c" and "getSampleCount s = 0"
  shows "getHighest s = Inr (mSamples s ! 0) \<and> getLowest s = Inr (mSamples s ! 0) \<and>
         getAverage s = Inl DivideByZero"
proof -
  from run_cases [OF assms(1)] assms(2) have i: "invar s" by auto
  then have sub: "subscript (mSamples s) 0 = Inr (mSamples s ! 0)"
    by (simp add: subscript_def invar_def)
  have h: "highest_loop (mSamples s) 0 0 (mSamples s ! 0) = Inr (mSamples s ! 0)"
    by (subst highest_loop.simps) simp
  have l: "lowest_loop (mSamples s) 0 0 (mSamples s ! 0) = Inr (mSamples s ! 0)"
    by (subst lowest_loop.simps) simp
  have a: "sum_loop (mSamples s) 0 0 0 = Inr 0"
    by (subst sum_loop.simps) simp
  show ?thesis
    using assms(3) sub h l a
    by (simp add: getHighest_def getLowest_def getAverage_def divide_int_def)
qed

theorem statistics_of_empty_buffer_witness:
  "run 2 [StoreSample 4, StoreSample 6, ClearSamples] =
     Inr \<lparr>mSampleArraySize = 2, mSampleIndex = 0, mAllSamplesReady = False, mSamples = [4, 6]\<rparr> \<and>
   (1::int) \<le> 2 \<and>
   getSampleCount \<lparr>mSampleArraySize = 2, mSampleIndex = 0, mAllSamplesReady = False, mSamples = [4, 6]\<rparr> = 0 \<and>
   getAverage \<lparr>mSampleArraySize = 2, mSampleIndex = 0, mAllSamplesReady = False, mSamples = [4, 6]\<rparr> = Inl DivideByZero"
proof -
  let ?s = "\<lparr>mSampleArraySize = 2, mSampleIndex = 0, mAllSamplesReady = False, mSamples = [4, 6 :: TYPE_int]\<rparr>"
  have r: "run 2 [StoreSample 4, StoreSample 6, ClearSamples] = Inr ?s" by code_simp
  have c: "(1::int) \<le> 2" by simp
  have p: "getSampleCount ?s = 0" by (simp add: getSampleCount_def)
  from statistics_of_empty_buffer [OF r c p] r c p show ?thesis by simp
qed

text \<open>
  The specification wants a capacity of zero or less to be refused or raised to 1. The
  constructor checks nothing: \<open>Sampler(0)\<close> builds an object with capacity 0.
\<close>

theorem Sampler_zero_capacity_counterexample:
  "Sampler 0 = Inr \<lparr>mSampleArraySize = 0, mSampleIndex = 0, mAllSamplesReady = False, mSamples = []\<rparr> \<and>
   getMaxSampleCount \<lparr>mSampleArraySize = 0, mSampleIndex = 0, mAllSamplesReady = False, mSamples = []\<rparr> = 0 \<and>
   \<not> 1 \<le> getMaxSampleCount \<lparr>mSampleArraySize = 0, mSampleIndex = 0, mAllSamplesReady = False, mSamples = []\<rparr>"
  by (simp add: Sampler_def getMaxSampleCount_def)

text \<open>
  C3, as the code has it. The constructor takes the capacity as it is: with
  \<open>numSamples \<ge> 1\<close> it builds an object that satisfies the class invariant, has capacity
  \<open>numSamples\<close>, zero in every slot, index 0 and the ready flag off; with \<open>numSamples = 0\<close>
  it builds the object without slots, of capacity 0; with \<open>numSamples < 0\<close> the array
  allocation is a fault and no object is built.
\<close>

theorem Sampler_capacity:
  "(1 \<le> numSamples \<longrightarrow>
      (\<exists>s. Sampler numSamples = Inr s \<and> invar s \<and> getMaxSampleCount s = numSamples \<and>
           mSamples s = replicate (nat numSamples) 0 \<and> mSampleIndex s = 0 \<and> \<not> allSamplesReady s)) \<and>
   (numSamples = 0 \<longrightarrow> Sampler numSamples = Inr no_slots \<and> getMaxSampleCount no_slots = 0) \<and>
   (numSamples < 0 \<longrightarrow> Sampler numSamples = Inl BadArrayNewLength)"
  by (simp add: Sampler_def invar_def getMaxSampleCount_def allSamplesReady_def no_slots_def)

theorem Sampler_capacity_witness:
  "(1::int) \<le> 3 \<and>
   Sampler 3 = Inr \<lparr>mSampleArraySize = 3, mSampleIndex = 0, mAllSamplesReady = False, mSamples = [0, 0, 0]\<rparr> \<and>
   invar \<lparr>mSampleArraySize = 3, mSampleIndex = 0, mAllSamplesReady = False, mSamples = [0, 0, 0]\<rparr> \<and>
   Sampler 0 = Inr no_slots \<and> Sampler (- 1) = Inl BadArrayNewLength"
proof -
  have e: "Sampler 3 = Inr \<lparr>mSampleArraySize = 3, mSampleIndex = 0, mAllSamplesReady = False, mSamples = [0, 0, 0]\<rparr>"
    by code_simp
  from Sampler_capacity [of 3] Sampler_capacity [of 0] Sampler_capacity [of "- 1"] e
  show ?thesis by (simp add: numeral_3_eq_3)
qed

text \<open>
  C4. For every capacity \<open>c \<ge> 1\<close> and every sequence of calls, \<open>allSamplesReady()\<close> is
  true exactly when at least \<open>c\<close> samples were stored since the constructor or the last
  \<open>clear()\<close>: it turns true with the \<open>c\<close>-th of them, stays true with every further one,
  and only \<open>clear()\<close> turns it off.
\<close>

theorem allSamplesReady_after_capacity_stores:
  assumes "1 \<le> c"
  shows "\<exists>s. run c cs = Inr s \<and> (allSamplesReady s \<longleftrightarrow> c \<le> int (length (stored cs)))"
  using run_track [OF assms, of cs] by (auto simp: allSamplesReady_def)

theorem allSamplesReady_after_capacity_stores_witness:
  "(1::int) \<le> 2 \<and>
   run 2 [StoreSample 1, StoreSample 2, StoreSample 3] =
     Inr \<lparr>mSampleArraySize = 2, mSampleIndex = 1, mAllSamplesReady = True, mSamples = [3, 2]\<rparr> \<and>
   allSamplesReady \<lparr>mSampleArraySize = 2, mSampleIndex = 1, mAllSamplesReady = True, mSamples = [3, 2]\<rparr> \<and>
   stored [StoreSample 1, StoreSample 2, StoreSample 3] = [1, 2, 3]"
proof -
  have r: "run 2 [StoreSample 1, StoreSample 2, StoreSample 3] =
     Inr \<lparr>mSampleArraySize = 2, mSampleIndex = 1, mAllSamplesReady = True, mSamples = [3, 2]\<rparr>"
    by code_simp
  have st: "stored [StoreSample 1, StoreSample 2, StoreSample 3] = [1, 2, 3]"
    by (simp add: stored_def)
  from allSamplesReady_after_capacity_stores [of 2 "[StoreSample 1, StoreSample 2, StoreSample 3]"] r st
  show ?thesis by simp
qed

text \<open>
  C5. For every capacity \<open>c \<ge> 1\<close>, while fewer than \<open>c\<close> samples were stored since
  the constructor or the last \<open>clear()\<close>, \<open>getSampleCount()\<close> is their number and
  \<open>allSamplesReady()\<close> is false.
\<close>

theorem getSampleCount_before_full:
  assumes "1 \<le> c" and "int (length (stored cs)) < c"
  shows "\<exists>s. run c cs = Inr s \<and> getSampleCount s = int (length (stored cs)) \<and> \<not> allSamplesReady s"
  using run_track [OF assms(1), of cs] assms(2)
  by (auto simp: allSamplesReady_def getSampleCount_def)

theorem getSampleCount_before_full_witness:
  "(1::int) \<le> 3 \<and> int (length (stored [StoreSample 5])) < 3 \<and>
   run 3 [StoreSample 5] =
     Inr \<lparr>mSampleArraySize = 3, mSampleIndex = 1, mAllSamplesReady = False, mSamples = [5, 0, 0]\<rparr> \<and>
   getSampleCount \<lparr>mSampleArraySize = 3, mSampleIndex = 1, mAllSamplesReady = False, mSamples = [5, 0, 0]\<rparr> = 1 \<and>
   \<not> allSamplesReady \<lparr>mSampleArraySize = 3, mSampleIndex = 1, mAllSamplesReady = False, mSamples = [5, 0, 0]\<rparr>"
proof -
  have r: "run 3 [StoreSample 5] =
     Inr \<lparr>mSampleArraySize = 3, mSampleIndex = 1, mAllSamplesReady = False, mSamples = [5, 0, 0]\<rparr>"
    by code_simp
  have st: "stored [StoreSample 5] = [5]" by (simp add: stored_def)
  from getSampleCount_before_full [of 3 "[StoreSample 5]"] r st
  show ?thesis by simp
qed

text \<open>
  C6. With at least one sample stored since the constructor or the last \<open>clear()\<close>,
  \<open>getLatest()\<close> returns the sample of the most recent \<open>storeSample()\<close>, full or not. It
  reads \<open>mSamples[mSampleIndex - 1]\<close>, and \<open>mSamples[mSampleArraySize - 1]\<close> when
  \<open>mSampleIndex\<close> is 0.
\<close>

theorem getLatest_last_stored:
  assumes "1 \<le> c" and "stored cs \<noteq> []"
  shows "\<exists>s. run c cs = Inr s \<and> getLatest s = Inr (last (stored cs)) \<and>
           getLatest s = Inr (mSamples s ! nat (if mSampleIndex s = 0 then getMaxSampleCount s - 1
                                                 else mSampleIndex s - 1))"
proof -
  from run_track [OF assms(1), of cs] assms(2) obtain s where
    s: "run c cs = Inr s" "invar s" "getLatest s = Inr (last (stored cs))" by blast
  from s(2) have "getLatest s = Inr (mSamples s ! nat (if mSampleIndex s = 0 then getMaxSampleCount s - 1
                                                 else mSampleIndex s - 1))"
    by (auto simp: getLatest_def subscript_def invar_def getMaxSampleCount_def)
  with s show ?thesis by blast
qed

theorem getLatest_last_stored_witness:
  "(1::int) \<le> 2 \<and> stored [StoreSample 10, StoreSample 20, StoreSample 30] \<noteq> [] \<and>
   run 2 [StoreSample 10, StoreSample 20, StoreSample 30] =
     Inr \<lparr>mSampleArraySize = 2, mSampleIndex = 1, mAllSamplesReady = True, mSamples = [30, 20]\<rparr> \<and>
   getLatest \<lparr>mSampleArraySize = 2, mSampleIndex = 1, mAllSamplesReady = True, mSamples = [30, 20]\<rparr> = Inr 30"
proof -
  have r: "run 2 [StoreSample 10, StoreSample 20, StoreSample 30] =
     Inr \<lparr>mSampleArraySize = 2, mSampleIndex = 1, mAllSamplesReady = True, mSamples = [30, 20]\<rparr>"
    by code_simp
  have st: "stored [StoreSample 10, StoreSample 20, StoreSample 30] = [10, 20, 30]"
    by (simp add: stored_def)
  from getLatest_last_stored [of 2 "[StoreSample 10, StoreSample 20, StoreSample 30]"] r st
  show ?thesis by simp
qed

text \<open>
  C7. \<open>clear()\<close> turns the ready flag off and sets the index to 0 and leaves the array
  alone: \<open>getSampleNum(i)\<close> answers after \<open>clear()\<close> what it answered before, for every
  \<open>i\<close>, and the capacity is the same.
\<close>

theorem clear_keeps_samples:
  "\<not> allSamplesReady (clear s) \<and> mSampleIndex (clear s) = 0 \<and> getSampleCount (clear s) = 0 \<and>
   mSamples (clear s) = mSamples s \<and>
   getMaxSampleCount (clear s) = getMaxSampleCount s \<and>
   getSampleNum (clear s) i = getSampleNum s i"
  by (simp add: clear_def allSamplesReady_def getMaxSampleCount_def getSampleNum_def getSampleCount_def)

theorem clear_keeps_samples_witness:
  "clear \<lparr>mSampleArraySize = 2, mSampleIndex = 1, mAllSamplesReady = True, mSamples = [30, 20]\<rparr> =
     \<lparr>mSampleArraySize = 2, mSampleIndex = 0, mAllSamplesReady = False, mSamples = [30, 20]\<rparr> \<and>
   getSampleNum (clear \<lparr>mSampleArraySize = 2, mSampleIndex = 1, mAllSamplesReady = True, mSamples = [30, 20]\<rparr>) 1
     = Inr 20"
proof -
  let ?s = "\<lparr>mSampleArraySize = 2, mSampleIndex = 1, mAllSamplesReady = True, mSamples = [30, 20 :: TYPE_int]\<rparr>"
  have g: "getSampleNum ?s 1 = Inr 20" by code_simp
  have c: "clear ?s = \<lparr>mSampleArraySize = 2, mSampleIndex = 0, mAllSamplesReady = False, mSamples = [30, 20]\<rparr>"
    by (simp add: clear_def)
  from clear_keeps_samples [of ?s 1] g c show ?thesis by simp
qed

text \<open>
  C8. \<open>getSampleNum(i)\<close> is meant to agree with \<open>getSampleNum(i + capacity)\<close> for every
  integer \<open>i\<close>: the member reduces its index with \<open>%\<close> so that any \<open>int\<close> lands on a
  slot. It does so only for indices that are not negative. The remainder of C++ takes the
  sign of the dividend: with two slots holding 10 and 20, \<open>-1 % 2\<close> is \<open>-1\<close>, a subscript
  outside the array, while \<open>-1 + 2\<close> reads slot 1 and returns 20.
\<close>

theorem getSampleNum_negative_index:
  "run 2 [StoreSample 10, StoreSample 20] =
     Inr \<lparr>mSampleArraySize = 2, mSampleIndex = 0, mAllSamplesReady = True, mSamples = [10, 20]\<rparr> \<and>
   getMaxSampleCount \<lparr>mSampleArraySize = 2, mSampleIndex = 0, mAllSamplesReady = True, mSamples = [10, 20]\<rparr> = 2 \<and>
   getSampleNum \<lparr>mSampleArraySize = 2, mSampleIndex = 0, mAllSamplesReady = True, mSamples = [10, 20]\<rparr> (- 1)
     = Inl OutOfBounds \<and>
   getSampleNum \<lparr>mSampleArraySize = 2, mSampleIndex = 0, mAllSamplesReady = True, mSamples = [10, 20]\<rparr> (- 1 + 2)
     = Inr 20"
  by code_simp

text \<open>
  On the indices that are not negative the wrap works: as long as \<open>idx + capacity\<close> is
  still an \<open>int\<close>, both calls read the physical slot \<open>idx mod capacity\<close>.
\<close>

lemma getSampleNum_periodic_nonneg:
  assumes "run c cs = Inr s" and "1 \<le> c" and "0 \<le> idx"
    and "idx + getMaxSampleCount s \<le> 2147483647"
  shows "getSampleNum s (idx + getMaxSampleCount s) = getSampleNum s idx \<and>
         getSampleNum s idx = Inr (mSamples s ! nat (idx mod getMaxSampleCount s))"
proof -
  from run_cases [OF assms(1)] assms(2) have a: "invar s" by auto
  then have pos: "0 < mSampleArraySize s" and len: "int (length (mSamples s)) = mSampleArraySize s"
    by (simp_all add: invar_def)
  have m1: "idx smod mSampleArraySize s = idx mod mSampleArraySize s"
    using assms(3) pos by (rule smod_nonneg)
  have "0 \<le> idx + mSampleArraySize s" using assms(3) pos by simp
  then have "(idx + mSampleArraySize s) smod mSampleArraySize s = (idx + mSampleArraySize s) mod mSampleArraySize s"
    using pos by (rule smod_nonneg)
  then have m2: "(idx + mSampleArraySize s) smod mSampleArraySize s = idx mod mSampleArraySize s"
    by simp
  have r: "0 \<le> idx mod mSampleArraySize s" "idx mod mSampleArraySize s < int (length (mSamples s))"
    using pos len by simp_all
  show ?thesis
    using pos m1 m2 r by (simp add: getSampleNum_def getMaxSampleCount_def subscript_def)
qed

text \<open>
  C9. In every buffer state with \<open>getSampleCount() > 0\<close>, \<open>getHighest()\<close> returns a slot
  among \<open>mSamples[0 .. getSampleCount()-1]\<close> that no slot of this range exceeds, and every
  slot before it is strictly smaller: the first occurrence of the maximum. \<open>getLowest()\<close>
  does the same for the minimum. Both are \<open>const\<close> members, functions of the state
  alone, so a second call on the same state returns the same result.
\<close>

theorem getHighest_getLowest_first_extremum:
  assumes "run c cs = Inr s" and "0 < getSampleCount s"
  shows "(\<exists>k<nat (getSampleCount s). getHighest s = Inr (mSamples s ! k) \<and>
            (\<forall>j<nat (getSampleCount s). sint (mSamples s ! j) \<le> sint (mSamples s ! k)) \<and>
            (\<forall>j<k. sint (mSamples s ! j) < sint (mSamples s ! k))) \<and>
         (\<exists>k<nat (getSampleCount s). getLowest s = Inr (mSamples s ! k) \<and>
            (\<forall>j<nat (getSampleCount s). sint (mSamples s ! k) \<le> sint (mSamples s ! j)) \<and>
            (\<forall>j<k. sint (mSamples s ! k) < sint (mSamples s ! j)))"
proof -
  let ?a = "mSamples s" and ?n = "getSampleCount s"
  have i: "invar s" using run_invar [OF assms] .
  then have sub: "subscript ?a 0 = Inr (?a ! 0)"
    by (simp add: subscript_def invar_def)
  have le: "?n \<le> int (length ?a)"
    using i by (simp add: invar_def getSampleCount_def)
  have n0: "0 \<le> ?n" "?n \<noteq> 0" using assms(2) by simp_all
  from highest_loop_inv [of 0 ?n ?a "?a ! 0", OF _ n0(1) le] n0(2)
  obtain r where r: "highest_loop ?a 0 ?n (?a ! 0) = Inr r"
      "\<exists>k<nat ?n. r = ?a ! k \<and> (\<forall>j<nat ?n. sint (?a ! j) \<le> sint r) \<and> (\<forall>j<k. sint (?a ! j) < sint r)"
    by auto
  have h: "getHighest s = Inr r"
    by (simp add: getHighest_def sub r(1))
  from lowest_loop_inv [of 0 ?n ?a "?a ! 0", OF _ n0(1) le] n0(2)
  obtain q where q: "lowest_loop ?a 0 ?n (?a ! 0) = Inr q"
      "\<exists>k<nat ?n. q = ?a ! k \<and> (\<forall>j<nat ?n. sint q \<le> sint (?a ! j)) \<and> (\<forall>j<k. sint q < sint (?a ! j))"
    by auto
  have l: "getLowest s = Inr q"
    by (simp add: getLowest_def sub q(1))
  from r(2) h have "\<exists>k<nat ?n. getHighest s = Inr (?a ! k) \<and>
            (\<forall>j<nat ?n. sint (?a ! j) \<le> sint (?a ! k)) \<and> (\<forall>j<k. sint (?a ! j) < sint (?a ! k))"
    by blast
  moreover from q(2) l have "\<exists>k<nat ?n. getLowest s = Inr (?a ! k) \<and>
            (\<forall>j<nat ?n. sint (?a ! k) \<le> sint (?a ! j)) \<and> (\<forall>j<k. sint (?a ! k) < sint (?a ! j))"
    by blast
  ultimately show ?thesis by blast
qed

theorem getHighest_getLowest_first_extremum_witness:
  "run 3 [StoreSample 5, StoreSample 9, StoreSample 9] =
     Inr \<lparr>mSampleArraySize = 3, mSampleIndex = 0, mAllSamplesReady = True, mSamples = [5, 9, 9]\<rparr> \<and>
   0 < getSampleCount \<lparr>mSampleArraySize = 3, mSampleIndex = 0, mAllSamplesReady = True, mSamples = [5, 9, 9]\<rparr> \<and>
   (\<exists>k<3. getHighest \<lparr>mSampleArraySize = 3, mSampleIndex = 0, mAllSamplesReady = True, mSamples = [5, 9, 9]\<rparr>
            = Inr ([5, 9, 9] ! k) \<and>
          (\<forall>j<3. sint ([5, 9, 9 :: TYPE_int] ! j) \<le> sint ([5, 9, 9 :: TYPE_int] ! k)) \<and>
          (\<forall>j<k. sint ([5, 9, 9 :: TYPE_int] ! j) < sint ([5, 9, 9 :: TYPE_int] ! k))) \<and>
   getHighest \<lparr>mSampleArraySize = 3, mSampleIndex = 0, mAllSamplesReady = True, mSamples = [5, 9, 9]\<rparr> = Inr 9 \<and>
   getLowest \<lparr>mSampleArraySize = 3, mSampleIndex = 0, mAllSamplesReady = True, mSamples = [5, 9, 9]\<rparr> = Inr 5"
proof -
  let ?s = "\<lparr>mSampleArraySize = 3, mSampleIndex = 0, mAllSamplesReady = True, mSamples = [5, 9, 9 :: TYPE_int]\<rparr>"
  have r: "run 3 [StoreSample 5, StoreSample 9, StoreSample 9] = Inr ?s" by code_simp
  have p: "0 < getSampleCount ?s" by (simp add: getSampleCount_def)
  have n: "nat (getSampleCount ?s) = 3" by (simp add: getSampleCount_def)
  have h: "getHighest ?s = Inr 9" by code_simp
  have l: "getLowest ?s = Inr 5" by code_simp
  from getHighest_getLowest_first_extremum [OF r p]
  have "\<exists>k<3. getHighest ?s = Inr ([5, 9, 9] ! k) \<and>
          (\<forall>j<3. sint ([5, 9, 9 :: TYPE_int] ! j) \<le> sint ([5, 9, 9 :: TYPE_int] ! k)) \<and>
          (\<forall>j<k. sint ([5, 9, 9 :: TYPE_int] ! j) < sint ([5, 9, 9 :: TYPE_int] ! k))"
    unfolding n by simp
  with r p h l show ?thesis by blast
qed

text \<open>
  C10. On an object just built with capacity \<open>c \<ge> 1\<close>, before any \<open>storeSample()\<close>,
  \<open>getLatest()\<close> reads \<open>mSamples[c - 1]\<close> and returns 0, the value the constructor put in
  every slot; it is a plain result, not a fault.
\<close>

theorem getLatest_of_new_Sampler:
  assumes "1 \<le> c"
  shows "\<exists>s. Sampler c = Inr s \<and> run c [] = Inr s \<and> getSampleCount s = 0 \<and>
           mSamples s = replicate (nat c) 0 \<and>
           getLatest s = Inr (mSamples s ! nat (c - 1)) \<and> getLatest s = Inr 0"
  using assms by (simp add: Sampler_def run_def getLatest_def subscript_def getSampleCount_def)

theorem getLatest_of_new_Sampler_witness:
  "(1::int) \<le> 3 \<and>
   Sampler 3 = Inr \<lparr>mSampleArraySize = 3, mSampleIndex = 0, mAllSamplesReady = False, mSamples = [0, 0, 0]\<rparr> \<and>
   getLatest \<lparr>mSampleArraySize = 3, mSampleIndex = 0, mAllSamplesReady = False, mSamples = [0, 0, 0]\<rparr> = Inr 0"
proof -
  have e: "Sampler 3 = Inr \<lparr>mSampleArraySize = 3, mSampleIndex = 0, mAllSamplesReady = False, mSamples = [0, 0, 0]\<rparr>"
    by code_simp
  from getLatest_of_new_Sampler [of 3] e show ?thesis by (simp add: numeral_3_eq_3)
qed

end
